theory Spec2Isabelle
  imports Complex_Main "HOL-Library.List_Lexorder" "HOL-Library.Char_ord"
begin

section \<open>Data model (frontend/src/api.ts)\<close>

text \<open>
  The status enum of \<^verbatim>\<open>api.ts\<close> and the \<^verbatim>\<open>DownloadTask\<close> interface. A task reaches
  the store as parsed JSON that is only cast to the interface, so a field the payload
  lacks reads \<^verbatim>\<open>undefined\<close>: the source's \<^verbatim>\<open>id\<close> is the field \<open>task_id\<close> here, with
  \<open>None\<close> for a payload that has no id. Strict equality \<^verbatim>\<open>===\<close> holds between two
  \<^verbatim>\<open>undefined\<close> and between two equal numbers, as equality on \<open>int option\<close> does.
  The ISO timestamps are strings or \<^verbatim>\<open>null\<close>; strings are ordered lexicographically,
  as JavaScript's relational operators order them.
\<close>

datatype TaskStatusEnum = PENDING | DOWNLOADING | PROCESSING | COMPLETED | FAILED | TERMINATED

record NovelRef =
  ref_id :: string
  title :: string
  author :: "string option"

record DownloadTask =
  task_id :: "int option"
  user_id :: int
  novel_id :: string
  novel :: "NovelRef option"
  celery_task_id :: "string option"
  status :: TaskStatusEnum
  progress :: real
  message :: "string option"
  created_at :: "string option"
  updated_at :: "string option"
  deleted :: "bool option"

text \<open>
  What an awaited REST call hands back to the store action: a body without an
  \<^verbatim>\<open>error\<close> key, a body with one (\<^verbatim>\<open>ErrorResponse\<close>), or a rejected promise (axios
  throws on a transport failure or a non-2xx answer).
\<close>

datatype 'a rest_result = Body 'a | ErrorBody string | Thrown

section \<open>Array helpers\<close>

text \<open>\<^verbatim>\<open>Array.prototype.findIndex\<close>: the first index whose element satisfies the predicate, \<open>-1\<close> when none does.\<close>

fun findIndex :: "('a \<Rightarrow> bool) \<Rightarrow> 'a list \<Rightarrow> int" where
  "findIndex p [] = - 1"
| "findIndex p (x # xs) =
     (if p x then 0 else (let r = findIndex p xs in if r = - 1 then - 1 else r + 1))"

section \<open>The task store (store/index.ts, useTaskStore)\<close>

record TaskStore =
  tasks :: "DownloadTask list"
  isLoading :: bool
  error :: "string option"

text \<open>The local failure messages of the store's \<^verbatim>\<open>catch\<close> blocks, as the UTF-8 bytes of the source literals.\<close>

definition fetch_failed_msg :: string where
  "fetch_failed_msg = [CHR 0xE8, CHR 0x8E, CHR 0xB7, CHR 0xE5, CHR 0x8F, CHR 0x96, CHR 0xE4,
     CHR 0xBB, CHR 0xBB, CHR 0xE5, CHR 0x8A, CHR 0xA1, CHR 0xE5, CHR 0x88, CHR 0x97, CHR 0xE8,
     CHR 0xA1, CHR 0xA8, CHR 0xE5, CHR 0xA4, CHR 0xB1, CHR 0xE8, CHR 0xB4, CHR 0xA5]"

definition terminate_failed_msg :: string where
  "terminate_failed_msg = [CHR 0xE7, CHR 0xBB, CHR 0x88, CHR 0xE6, CHR 0xAD, CHR 0xA2, CHR 0xE4,
     CHR 0xBB, CHR 0xBB, CHR 0xE5, CHR 0x8A, CHR 0xA1, CHR 0xE5, CHR 0xA4, CHR 0xB1, CHR 0xE8,
     CHR 0xB4, CHR 0xA5]"

definition delete_failed_msg :: string where
  "delete_failed_msg = [CHR 0xE5, CHR 0x88, CHR 0xA0, CHR 0xE9, CHR 0x99, CHR 0xA4, CHR 0xE4,
     CHR 0xBB, CHR 0xBB, CHR 0xE5, CHR 0x8A, CHR 0xA1, CHR 0xE5, CHR 0xA4, CHR 0xB1, CHR 0xE8,
     CHR 0xB4, CHR 0xA5]"

definition redownload_failed_msg :: string where
  "redownload_failed_msg = [CHR 0xE9, CHR 0x87, CHR 0x8D, CHR 0xE6, CHR 0x96, CHR 0xB0, CHR 0xE4,
     CHR 0xB8, CHR 0x8B, CHR 0xE8, CHR 0xBD, CHR 0xBD, CHR 0xE4, CHR 0xBB, CHR 0xBB, CHR 0xE5,
     CHR 0x8A, CHR 0xA1, CHR 0xE5, CHR 0xA4, CHR 0xB1, CHR 0xE8, CHR 0xB4, CHR 0xA5]"

text \<open>
  Every asynchronous action of the store is cut at its single \<^verbatim>\<open>await\<close>. Before it, each
  action sets \<^verbatim>\<open>isLoading\<close> and clears \<^verbatim>\<open>error\<close> (\<open>action_begin\<close>) and issues its
  REST call; \<open>_resume\<close> is the code that runs with the call's outcome (the rest of the
  \<^verbatim>\<open>try\<close> body, the \<^verbatim>\<open>catch\<close> and the \<^verbatim>\<open>finally\<close>) and gives the new store and the
  value the action resolves to. The function named as in the source runs both parts with
  nothing in between.
\<close>

definition action_begin :: "TaskStore \<Rightarrow> TaskStore" where
  "action_begin st = st\<lparr>isLoading := True, error := None\<rparr>"

definition fetchTasks_resume :: "TaskStore \<Rightarrow> DownloadTask list rest_result \<Rightarrow> TaskStore" where
  "fetchTasks_resume st response =
     (case response of
        Body ts \<Rightarrow> st\<lparr>tasks := ts, isLoading := False\<rparr>
      | ErrorBody e \<Rightarrow> st\<lparr>error := Some e, isLoading := False\<rparr>
      | Thrown \<Rightarrow> st\<lparr>error := Some fetch_failed_msg, isLoading := False\<rparr>)"

definition fetchTasks :: "TaskStore \<Rightarrow> DownloadTask list rest_result \<Rightarrow> TaskStore" where
  "fetchTasks st response = fetchTasks_resume (action_begin st) response"

definition terminateTask_resume ::
  "TaskStore \<Rightarrow> int \<Rightarrow> (string \<times> DownloadTask) rest_result \<Rightarrow> TaskStore \<times> DownloadTask option" where
  "terminateTask_resume st taskId response =
     (case response of
        Body (msg, task) \<Rightarrow>
          (let index = findIndex (\<lambda>t. task_id t = Some taskId) (tasks st)
           in ((if index \<noteq> - 1 then st\<lparr>tasks := (tasks st)[nat index := task]\<rparr> else st)
                 \<lparr>isLoading := False\<rparr>, Some task))
      | ErrorBody e \<Rightarrow> (st\<lparr>error := Some e, isLoading := False\<rparr>, None)
      | Thrown \<Rightarrow> (st\<lparr>error := Some terminate_failed_msg, isLoading := False\<rparr>, None))"

definition terminateTask ::
  "TaskStore \<Rightarrow> int \<Rightarrow> (string \<times> DownloadTask) rest_result \<Rightarrow> TaskStore \<times> DownloadTask option" where
  "terminateTask st taskId response = terminateTask_resume (action_begin st) taskId response"

definition deleteTask_resume :: "TaskStore \<Rightarrow> int \<Rightarrow> string rest_result \<Rightarrow> TaskStore \<times> bool" where
  "deleteTask_resume st taskId response =
     (case response of
        Body msg \<Rightarrow>
          (st\<lparr>tasks := filter (\<lambda>t. task_id t \<noteq> Some taskId) (tasks st), isLoading := False\<rparr>, True)
      | ErrorBody e \<Rightarrow> (st\<lparr>error := Some e, isLoading := False\<rparr>, False)
      | Thrown \<Rightarrow> (st\<lparr>error := Some delete_failed_msg, isLoading := False\<rparr>, False))"

definition deleteTask :: "TaskStore \<Rightarrow> int \<Rightarrow> string rest_result \<Rightarrow> TaskStore \<times> bool" where
  "deleteTask st taskId response = deleteTask_resume (action_begin st) taskId response"

definition redownloadTask_resume ::
  "TaskStore \<Rightarrow> int \<Rightarrow> (string \<times> DownloadTask) rest_result \<Rightarrow> TaskStore \<times> DownloadTask option" where
  "redownloadTask_resume st taskId response =
     (case response of
        Body (msg, task) \<Rightarrow>
          (let index = findIndex (\<lambda>t. task_id t = Some taskId) (tasks st)
           in ((if index \<noteq> - 1 then st\<lparr>tasks := (tasks st)[nat index := task]\<rparr> else st)
                 \<lparr>isLoading := False\<rparr>, Some task))
      | ErrorBody e \<Rightarrow> (st\<lparr>error := Some e, isLoading := False\<rparr>, None)
      | Thrown \<Rightarrow> (st\<lparr>error := Some redownload_failed_msg, isLoading := False\<rparr>, None))"

definition redownloadTask ::
  "TaskStore \<Rightarrow> int \<Rightarrow> (string \<times> DownloadTask) rest_result \<Rightarrow> TaskStore \<times> DownloadTask option" where
  "redownloadTask st taskId response = redownloadTask_resume (action_begin st) taskId response"

text \<open>
  \<^verbatim>\<open>updateTaskFromWebSocket\<close>, the store's upsert: overwrite at the first index whose id
  is the payload's, push at the tail when there is none.
\<close>

definition updateTaskFromWebSocket :: "TaskStore \<Rightarrow> DownloadTask \<Rightarrow> TaskStore" where
  "updateTaskFromWebSocket st taskData =
     (let index = findIndex (\<lambda>t. task_id t = task_id taskData) (tasks st)
      in if index \<noteq> - 1 then st\<lparr>tasks := (tasks st)[nat index := taskData]\<rparr>
         else st\<lparr>tasks := tasks st @ [taskData]\<rparr>)"

text \<open>
  Modelled from the spec: the read accessor \<^verbatim>\<open>get(id)\<close> of the Task Repository, which the
  store does not define (its callers read \<^verbatim>\<open>tasks\<close> directly): the first stored entry
  with that id. The accessor \<^verbatim>\<open>all()\<close> is the field \<open>tasks\<close>.
\<close>

definition get :: "TaskStore \<Rightarrow> int \<Rightarrow> DownloadTask option" where
  "get st i = find (\<lambda>t. task_id t = Some i) (tasks st)"

text \<open>A task with the given id and status, every other field at a fixed plain value.\<close>

definition mk_task :: "int \<Rightarrow> TaskStatusEnum \<Rightarrow> DownloadTask" where
  "mk_task i s = \<lparr>task_id = Some i, user_id = 1, novel_id = ''7'', novel = None,
     celery_task_id = None, status = s, progress = 0, message = None,
     created_at = None, updated_at = None, deleted = None\<rparr>"

definition empty_store :: TaskStore where
  "empty_store = \<lparr>tasks = [], isLoading = False, error = None\<rparr>"

text \<open>
  The two ways the collection is written from outside a user action, as the spec names
  them: \<^verbatim>\<open>upsert\<close> is \<^verbatim>\<open>updateTaskFromWebSocket\<close>, \<^verbatim>\<open>replaceAll\<close> is a successful
  \<^verbatim>\<open>fetchTasks\<close>.
\<close>

datatype repo_op = Upsert DownloadTask | ReplaceAll "DownloadTask list"

fun apply_op :: "TaskStore \<Rightarrow> repo_op \<Rightarrow> TaskStore" where
  "apply_op st (Upsert t) = updateTaskFromWebSocket st t"
| "apply_op st (ReplaceAll ts) = fetchTasks st (Body ts)"

definition run_ops :: "TaskStore \<Rightarrow> repo_op list \<Rightarrow> TaskStore" where
  "run_ops st ops = foldl apply_op st ops"

fun snapshot_ids_distinct :: "repo_op \<Rightarrow> bool" where
  "snapshot_ids_distinct (Upsert t) = True"
| "snapshot_ids_distinct (ReplaceAll ts) = distinct (map task_id ts)"

section \<open>The realtime channel (frontend/src/api.ts, WebSocketAPI)\<close>

text \<open>
  The module keeps two variables, \<^verbatim>\<open>socket\<close> and \<^verbatim>\<open>taskUpdateCallback\<close>. A socket is
  read only through its \<^verbatim>\<open>connected\<close> flag, so \<open>socket\<close> is \<open>None\<close> for \<^verbatim>\<open>null\<close> and
  \<open>Some c\<close> for a socket whose flag is \<open>c\<close>. \<open>promise\<close> is the promise returned by the
  latest \<^verbatim>\<open>connect\<close> call (a promise settles once), \<open>emitted\<close> the tokens of the
  \<^verbatim>\<open>authenticate\<close> messages handed to \<^verbatim>\<open>emit\<close> on the socket that call opened.

  Behaviour of socket.io-client relied on: a fresh socket is not connected; the library
  sets the flag before it runs the \<^verbatim>\<open>connect\<close> listener and clears it before it runs the
  \<^verbatim>\<open>disconnect\<close> listener; \<^verbatim>\<open>socket.disconnect()\<close> runs the \<^verbatim>\<open>disconnect\<close> listener
  at once when the socket was connected and runs no listener otherwise.
\<close>

datatype promise = Pending | Resolved bool | Rejected string

definition resolve :: "bool \<Rightarrow> promise \<Rightarrow> promise" where
  "resolve v p = (if p = Pending then Resolved v else p)"

definition reject :: "string \<Rightarrow> promise \<Rightarrow> promise" where
  "reject e p = (if p = Pending then Rejected e else p)"

record WebSocketAPI =
  socket :: "bool option"
  taskUpdateCallback :: "(DownloadTask \<Rightarrow> TaskStore \<Rightarrow> TaskStore) option"
  promise :: promise
  emitted :: "string list"

datatype server_event =
    connect_ev
  | request_auth
  | auth_response bool string
  | task_update DownloadTask
  | connect_error string
  | disconnect_ev string

text \<open>\<^verbatim>\<open>if (token)\<close>: \<^verbatim>\<open>null\<close> and the empty string are falsy.\<close>

definition truthy :: "string option \<Rightarrow> bool" where
  "truthy token = (case token of None \<Rightarrow> False | Some t \<Rightarrow> t \<noteq> [])"

text \<open>The \<^verbatim>\<open>disconnect\<close> listener: \<^verbatim>\<open>if (socket) socket = null\<close>.\<close>

definition on_disconnect :: "WebSocketAPI \<Rightarrow> WebSocketAPI" where
  "on_disconnect ws = (if socket ws \<noteq> None then ws\<lparr>socket := None\<rparr> else ws)"

text \<open>\<^verbatim>\<open>socket?.disconnect()\<close>, with the listener the library runs when the socket was connected.\<close>

definition socket_disconnect :: "WebSocketAPI \<Rightarrow> WebSocketAPI" where
  "socket_disconnect ws =
     (case socket ws of
        None \<Rightarrow> ws
      | Some c \<Rightarrow> if c then on_disconnect (ws\<lparr>socket := Some False\<rparr>) else ws)"

definition connect :: "string option \<Rightarrow> WebSocketAPI \<Rightarrow> WebSocketAPI" where
  "connect token ws =
     (if socket ws = Some True then ws\<lparr>promise := Resolved True\<rparr>
      else ws\<lparr>socket := Some False, promise := Pending, emitted := []\<rparr>)"

text \<open>The listeners \<^verbatim>\<open>connect(token)\<close> registers, by event; \<open>token\<close> is the closure's.\<close>

fun listener :: "string option \<Rightarrow> WebSocketAPI \<Rightarrow> server_event \<Rightarrow> WebSocketAPI" where
  "listener token ws connect_ev = ws\<lparr>socket := map_option (\<lambda>c. True) (socket ws)\<rparr>"
| "listener token ws request_auth =
     (if truthy token
      then (if socket ws \<noteq> None then ws\<lparr>emitted := emitted ws @ [the token]\<rparr> else ws)
      else (socket_disconnect ws)
             \<lparr>promise := reject ''No authentication token available.'' (promise ws)\<rparr>)"
| "listener token ws (auth_response success msg) =
     (if success then ws\<lparr>promise := resolve True (promise ws)\<rparr>
      else (socket_disconnect ws)
             \<lparr>promise := reject (''Authentication failed: '' @ msg) (promise ws)\<rparr>)"
| "listener token ws (task_update taskData) = ws"
| "listener token ws (connect_error err) =
     (if socket ws \<noteq> None then (socket_disconnect ws)\<lparr>socket := None\<rparr> else ws)
       \<lparr>promise := reject err (promise ws)\<rparr>"
| "listener token ws (disconnect_ev reason) =
     on_disconnect (ws\<lparr>socket := map_option (\<lambda>c. False) (socket ws)\<rparr>)"

text \<open>What the \<^verbatim>\<open>task_update\<close> listener does to the store: it calls the registered callback, if any.\<close>

definition on_task_update :: "WebSocketAPI \<Rightarrow> DownloadTask \<Rightarrow> TaskStore \<Rightarrow> TaskStore" where
  "on_task_update ws taskData st =
     (case taskUpdateCallback ws of None \<Rightarrow> st | Some callback \<Rightarrow> callback taskData st)"

definition run_events :: "string option \<Rightarrow> WebSocketAPI \<Rightarrow> server_event list \<Rightarrow> WebSocketAPI" where
  "run_events token ws evs = foldl (listener token) ws evs"


definition onTaskUpdate ::
  "(DownloadTask \<Rightarrow> TaskStore \<Rightarrow> TaskStore) \<Rightarrow> WebSocketAPI \<Rightarrow> WebSocketAPI" where
  "onTaskUpdate callback ws = ws\<lparr>taskUpdateCallback := Some callback\<rparr>"

definition isConnected :: "WebSocketAPI \<Rightarrow> bool" where
  "isConnected ws = (case socket ws of None \<Rightarrow> False | Some c \<Rightarrow> c)"

text \<open>
  Modelled from the spec: the server's side of the handshake, which the client code does
  not contain. Step 4 of the protocol answers step 3: the server sends
  \<^verbatim>\<open>auth_response\<close> only on a socket on which the client has sent \<^verbatim>\<open>authenticate\<close>.
\<close>

fun server_conforms :: "string option \<Rightarrow> WebSocketAPI \<Rightarrow> server_event list \<Rightarrow> bool" where
  "server_conforms token ws [] = True"
| "server_conforms token ws (e # es) =
     ((case e of auth_response success msg \<Rightarrow> emitted ws \<noteq> [] | _ \<Rightarrow> True)
      \<and> server_conforms token (listener token ws e) es)"

definition idle_channel :: WebSocketAPI where
  "idle_channel = \<lparr>socket = None, taskUpdateCallback = None, promise = Pending, emitted = []\<rparr>"

section \<open>Session and logout (store/index.ts useAuthStore, views/HomeView.vue)\<close>








section \<open>The task page (views/TasksView.vue)\<close>

datatype action = Terminate | Delete | Redownload

text \<open>
  The page's two refs and the store it drives. \<open>requests\<close> records the REST calls issued
  through \<^verbatim>\<open>api.Tasks.terminate\<close>, \<^verbatim>\<open>delete\<close> and \<^verbatim>\<open>redownload\<close>, oldest first.
\<close>

record TasksView =
  taskStore :: TaskStore
  activeTaskId :: "int option"
  actionType :: "action option"
  requests :: "(action \<times> int) list"

text \<open>
  The template's bindings on the three buttons of a row: the \<^verbatim>\<open>v-if\<close> conditions (the
  group is under \<^verbatim>\<open>v-if="!row.deleted"\<close>) and the \<^verbatim>\<open>:loading\<close> bindings.
\<close>

definition button_rendered :: "action \<Rightarrow> DownloadTask \<Rightarrow> bool" where
  "button_rendered a row =
     (deleted row \<noteq> Some True \<and>
      (case a of
         Terminate \<Rightarrow> status row \<in> set [PENDING, DOWNLOADING, PROCESSING]
       | Redownload \<Rightarrow> status row \<in> set [COMPLETED, FAILED, TERMINATED]
       | Delete \<Rightarrow> True))"

definition button_loading :: "TasksView \<Rightarrow> action \<Rightarrow> DownloadTask \<Rightarrow> bool" where
  "button_loading v a row =
     ((case activeTaskId v of None \<Rightarrow> False | Some i \<Rightarrow> task_id row = Some i)
      \<and> actionType v = Some a)"

text \<open>
  The handlers \<^verbatim>\<open>terminateTask\<close>, \<^verbatim>\<open>deleteTask\<close> and \<^verbatim>\<open>redownloadTask\<close> of the page, cut
  at their awaits. \<open>handler_enter\<close> is the two assignments at the top, \<open>store_call\<close> the
  call of the store action up to its own await (the store sets its flags and issues the
  request), \<open>handler_finally\<close> the \<^verbatim>\<open>finally\<close> block.
\<close>

definition handler_enter :: "action \<Rightarrow> int \<Rightarrow> TasksView \<Rightarrow> TasksView" where
  "handler_enter a taskId v = v\<lparr>activeTaskId := Some taskId, actionType := Some a\<rparr>"

definition store_call :: "action \<Rightarrow> int \<Rightarrow> TasksView \<Rightarrow> TasksView" where
  "store_call a taskId v =
     v\<lparr>taskStore := action_begin (taskStore v), requests := requests v @ [(a, taskId)]\<rparr>"

definition handler_finally :: "TasksView \<Rightarrow> TasksView" where
  "handler_finally v = v\<lparr>activeTaskId := None, actionType := None\<rparr>"

text \<open>
  What can happen on the page, one event per resumption: a handler is invoked, its
  confirmation dialog is accepted or dismissed (terminate and delete ask, redownload
  does not), or the REST call of an invocation returns.
\<close>

datatype ui_event =
    Invoke action int
  | DialogOk action int
  | DialogCancel action int
  | TerminateDone int "(string \<times> DownloadTask) rest_result"
  | DeleteDone int "string rest_result"
  | RedownloadDone int "(string \<times> DownloadTask) rest_result"

fun step :: "TasksView \<Rightarrow> ui_event \<Rightarrow> TasksView" where
  "step v (Invoke a taskId) =
     (if a = Redownload then store_call a taskId (handler_enter a taskId v)
      else handler_enter a taskId v)"
| "step v (DialogOk a taskId) = (if a = Redownload then v else store_call a taskId v)"
| "step v (DialogCancel a taskId) = (if a = Redownload then v else handler_finally v)"
| "step v (TerminateDone taskId r) =
     handler_finally (v\<lparr>taskStore := fst (terminateTask_resume (taskStore v) taskId r)\<rparr>)"
| "step v (DeleteDone taskId r) =
     handler_finally (v\<lparr>taskStore := fst (deleteTask_resume (taskStore v) taskId r)\<rparr>)"
| "step v (RedownloadDone taskId r) =
     handler_finally (v\<lparr>taskStore := fst (redownloadTask_resume (taskStore v) taskId r)\<rparr>)"

definition run_ui :: "TasksView \<Rightarrow> ui_event list \<Rightarrow> TasksView" where
  "run_ui v evs = foldl step v evs"

text \<open>The request each event issues: the list is empty for an event that issues none.\<close>

fun issued :: "ui_event \<Rightarrow> (action \<times> int) list" where
  "issued (Invoke a taskId) = (if a = Redownload then [(a, taskId)] else [])"
| "issued (DialogOk a taskId) = (if a = Redownload then [] else [(a, taskId)])"
| "issued e = []"

definition page_with :: "DownloadTask list \<Rightarrow> TasksView" where
  "page_with ts = \<lparr>taskStore = \<lparr>tasks = ts, isLoading = False, error = None\<rparr>,
     activeTaskId = None, actionType = None, requests = []\<rparr>"

section \<open>Example inputs\<close>

definition fresher_row :: DownloadTask where
  "fresher_row = (mk_task 1 DOWNLOADING)\<lparr>updated_at := Some ''2024-05-02T10:00:00''\<rparr>"

definition stale_push :: DownloadTask where
  "stale_push = (mk_task 1 PENDING)\<lparr>updated_at := Some ''2024-05-01T10:00:00''\<rparr>"

definition two_rows :: TaskStore where
  "two_rows = \<lparr>tasks = [mk_task 4 COMPLETED, mk_task 5 DOWNLOADING], isLoading = False, error = None\<rparr>"

definition three_rows :: TaskStore where
  "three_rows = \<lparr>tasks = [mk_task 2 COMPLETED, mk_task 3 FAILED, mk_task 4 PENDING],
     isLoading = False, error = None\<rparr>"

definition no_id_payload :: DownloadTask where
  "no_id_payload = (mk_task 0 DOWNLOADING)\<lparr>task_id := None\<rparr>"

definition open_channel :: WebSocketAPI where
  "open_channel = \<lparr>socket = Some True, taskUpdateCallback = None, promise = Resolved True,
     emitted = [''jwt'']\<rparr>"

definition awaiting_verdict :: WebSocketAPI where
  "awaiting_verdict = run_events (Some ''jwt'') (connect (Some ''jwt'') idle_channel)
     [connect_ev, request_auth]"

section \<open>Facts about findIndex\<close>

lemma findIndex_ge: "- 1 \<le> findIndex p xs"
  by (induction xs) (auto simp: Let_def)

lemma findIndex_none: "findIndex p xs = - 1 \<longleftrightarrow> (\<forall>x \<in> set xs. \<not> p x)"
proof (induction xs)
  case Nil
  show ?case by simp
next
  case (Cons x xs)
  have "- 1 \<le> findIndex p xs" by (rule findIndex_ge)
  with Cons show ?case by (auto simp: Let_def)
qed

lemma findIndex_found:
  assumes "findIndex p xs \<noteq> - 1"
  shows "nat (findIndex p xs) < length xs \<and> p (xs ! nat (findIndex p xs))
    \<and> (\<forall>j < nat (findIndex p xs). \<not> p (xs ! j)) \<and> 0 \<le> findIndex p xs"
  using assms
proof (induction xs)
  case Nil
  then show ?case by simp
next
  case (Cons x xs)
  show ?case
  proof (cases "p x")
    case True
    then show ?thesis by simp
  next
    case False
    with Cons.prems have ne: "findIndex p xs \<noteq> - 1"
      by (auto simp: Let_def split: if_splits)
    from Cons.IH [OF ne] have ih: "nat (findIndex p xs) < length xs"
      "p (xs ! nat (findIndex p xs))" "\<forall>j < nat (findIndex p xs). \<not> p (xs ! j)"
      "0 \<le> findIndex p xs" by auto
    have eq: "findIndex p (x # xs) = findIndex p xs + 1"
      using False ne by (simp add: Let_def)
    have n: "nat (findIndex p xs + 1) = Suc (nat (findIndex p xs))"
      using ih(4) by simp
    show ?thesis
      unfolding eq n using ih False
      by (auto simp: nth_Cons less_Suc_eq_0_disj split: nat.splits)
  qed
qed

lemma find_append_new:
  "\<forall>x \<in> set xs. \<not> p x \<Longrightarrow> p y \<Longrightarrow> find p (xs @ [y]) = Some y"
  by (induction xs) auto

lemma find_update_first:
  assumes "i < length xs" "\<forall>j < i. \<not> p (xs ! j)" "p y"
  shows "find p (xs[i := y]) = Some y"
  using assms
proof (induction xs arbitrary: i)
  case Nil
  then show ?case by simp
next
  case (Cons x xs)
  show ?case
  proof (cases i)
    case 0
    with Cons.prems show ?thesis by simp
  next
    case (Suc k)
    with Cons.prems have "\<not> p x" by auto
    moreover have "k < length xs" using Cons.prems Suc by simp
    moreover have "\<forall>j < k. \<not> p (xs ! j)" using Cons.prems(2) Suc by auto
    ultimately show ?thesis using Cons.IH [of k] Cons.prems(3) Suc by simp
  qed
qed

lemma map_task_id_update:
  "i < length xs \<Longrightarrow> task_id (xs ! i) = task_id t \<Longrightarrow> map task_id (xs[i := t]) = map task_id xs"
  by (simp add: map_update list_update_same_conv)

lemma upsert_cases:
  "tasks (updateTaskFromWebSocket st t) =
     (if findIndex (\<lambda>x. task_id x = task_id t) (tasks st) = - 1 then tasks st @ [t]
      else (tasks st)[nat (findIndex (\<lambda>x. task_id x = task_id t) (tasks st)) := t])"
  by (simp add: updateTaskFromWebSocket_def Let_def)

section \<open>Claims about the task store\<close>

text \<open>
  C5. Upsert (\<^verbatim>\<open>updateTaskFromWebSocket\<close>) of a task whose id is already stored overwrites
  that entry in place: the position and every other entry are kept. Upsert of an unknown
  id appends the task at the tail. After a snapshot \<^verbatim>\<open>[{id:1,status:PENDING}]\<close> and an
  upsert of \<^verbatim>\<open>{id:1,status:DOWNLOADING}\<close>, \<^verbatim>\<open>get(1).status\<close> is DOWNLOADING and the
  collection has length 1.
\<close>

theorem upsert_overwrites_or_appends:
  "((\<exists>x \<in> set (tasks st). task_id x = task_id t) \<longrightarrow>
      (\<exists>i < length (tasks st). task_id (tasks st ! i) = task_id t
         \<and> (\<forall>j < i. task_id (tasks st ! j) \<noteq> task_id t)
         \<and> tasks (updateTaskFromWebSocket st t) = (tasks st)[i := t]
         \<and> length (tasks (updateTaskFromWebSocket st t)) = length (tasks st)
         \<and> tasks (updateTaskFromWebSocket st t) ! i = t
         \<and> (\<forall>j < length (tasks st). j \<noteq> i \<longrightarrow>
               tasks (updateTaskFromWebSocket st t) ! j = tasks st ! j)))
   \<and> ((\<forall>x \<in> set (tasks st). task_id x \<noteq> task_id t) \<longrightarrow>
        tasks (updateTaskFromWebSocket st t) = tasks st @ [t])
   \<and> (task_id p = Some 1 \<and> status p = PENDING \<and> task_id d = Some 1 \<and> status d = DOWNLOADING \<longrightarrow>
        map_option status (get (updateTaskFromWebSocket (fetchTasks st0 (Body [p])) d) 1) = Some DOWNLOADING
        \<and> length (tasks (updateTaskFromWebSocket (fetchTasks st0 (Body [p])) d)) = 1)"
proof (intro conjI impI)
  assume ex: "\<exists>x \<in> set (tasks st). task_id x = task_id t"
  let ?p = "\<lambda>x. task_id x = task_id t"
  let ?k = "findIndex ?p (tasks st)"
  from ex have ne: "?k \<noteq> - 1" by (simp add: findIndex_none)
  from findIndex_found [OF ne]
  have k: "nat ?k < length (tasks st)" "?p (tasks st ! nat ?k)"
    "\<forall>j < nat ?k. \<not> ?p (tasks st ! j)" by auto
  have up: "tasks (updateTaskFromWebSocket st t) = (tasks st)[nat ?k := t]"
    using ne by (simp add: upsert_cases)
  show "\<exists>i < length (tasks st). task_id (tasks st ! i) = task_id t
         \<and> (\<forall>j < i. task_id (tasks st ! j) \<noteq> task_id t)
         \<and> tasks (updateTaskFromWebSocket st t) = (tasks st)[i := t]
         \<and> length (tasks (updateTaskFromWebSocket st t)) = length (tasks st)
         \<and> tasks (updateTaskFromWebSocket st t) ! i = t
         \<and> (\<forall>j < length (tasks st). j \<noteq> i \<longrightarrow>
               tasks (updateTaskFromWebSocket st t) ! j = tasks st ! j)"
    using k up by (intro exI [of _ "nat ?k"]) simp
next
  assume "\<forall>x \<in> set (tasks st). task_id x \<noteq> task_id t"
  then have "findIndex (\<lambda>x. task_id x = task_id t) (tasks st) = - 1"
    by (simp add: findIndex_none)
  then show "tasks (updateTaskFromWebSocket st t) = tasks st @ [t]"
    by (simp add: upsert_cases)
next
  assume h: "task_id p = Some 1 \<and> status p = PENDING \<and> task_id d = Some 1 \<and> status d = DOWNLOADING"
  have f: "tasks (fetchTasks st0 (Body [p])) = [p]"
    by (simp add: fetchTasks_def fetchTasks_resume_def action_begin_def)
  have u: "tasks (updateTaskFromWebSocket (fetchTasks st0 (Body [p])) d) = [d]"
    using h by (simp add: upsert_cases f)
  show "map_option status (get (updateTaskFromWebSocket (fetchTasks st0 (Body [p])) d) 1) = Some DOWNLOADING"
    using h by (simp add: get_def u)
  show "length (tasks (updateTaskFromWebSocket (fetchTasks st0 (Body [p])) d)) = 1"
    by (simp add: u)
qed

theorem upsert_overwrites_or_appends_witness:
  "(\<exists>x \<in> set (tasks (fetchTasks empty_store (Body [mk_task 1 PENDING, mk_task 2 DOWNLOADING]))).
       task_id x = task_id (mk_task 2 COMPLETED))
   \<and> tasks (updateTaskFromWebSocket
        (fetchTasks empty_store (Body [mk_task 1 PENDING, mk_task 2 DOWNLOADING])) (mk_task 2 COMPLETED))
       = [mk_task 1 PENDING, mk_task 2 COMPLETED]
   \<and> list_all (\<lambda>x. task_id x \<noteq> task_id (mk_task 2 FAILED)) (tasks empty_store)
   \<and> tasks (updateTaskFromWebSocket empty_store (mk_task 2 FAILED)) = [mk_task 2 FAILED]
   \<and> map_option status (get (updateTaskFromWebSocket
        (fetchTasks empty_store (Body [mk_task 1 PENDING])) (mk_task 1 DOWNLOADING)) 1) = Some DOWNLOADING
   \<and> length (tasks (updateTaskFromWebSocket
        (fetchTasks empty_store (Body [mk_task 1 PENDING])) (mk_task 1 DOWNLOADING))) = 1"
proof -
  let ?s = "fetchTasks empty_store (Body [mk_task 1 PENDING, mk_task 2 DOWNLOADING])"
  have ts: "tasks ?s = [mk_task 1 PENDING, mk_task 2 DOWNLOADING]"
    by (simp add: fetchTasks_def fetchTasks_resume_def action_begin_def)
  have h1: "\<exists>x \<in> set (tasks ?s). task_id x = task_id (mk_task 2 COMPLETED)"
    unfolding ts by (simp add: mk_task_def)
  have h2: "\<forall>x \<in> set (tasks empty_store). task_id x \<noteq> task_id (mk_task 2 FAILED)"
    by (simp add: empty_store_def)
  have h3: "task_id (mk_task 1 PENDING) = Some 1 \<and> status (mk_task 1 PENDING) = PENDING
     \<and> task_id (mk_task 1 DOWNLOADING) = Some 1 \<and> status (mk_task 1 DOWNLOADING) = DOWNLOADING"
    by (simp add: mk_task_def)
  from upsert_overwrites_or_appends [of ?s "mk_task 2 COMPLETED"] h1
  obtain i where i: "i < length (tasks ?s)" "task_id (tasks ?s ! i) = task_id (mk_task 2 COMPLETED)"
    "tasks (updateTaskFromWebSocket ?s (mk_task 2 COMPLETED)) = (tasks ?s)[i := mk_task 2 COMPLETED]"
    by blast
  have "i = 1" using i(1,2) unfolding ts by (auto simp: mk_task_def less_Suc_eq)
  with i(3) have c1: "tasks (updateTaskFromWebSocket ?s (mk_task 2 COMPLETED))
      = [mk_task 1 PENDING, mk_task 2 COMPLETED]" by (simp add: ts)
  from upsert_overwrites_or_appends [of empty_store "mk_task 2 FAILED"] h2
  have c2: "tasks (updateTaskFromWebSocket empty_store (mk_task 2 FAILED)) = [mk_task 2 FAILED]"
    by (simp add: empty_store_def)
  from upsert_overwrites_or_appends [of _ _ "mk_task 1 PENDING" "mk_task 1 DOWNLOADING" empty_store] h3
  have c3: "map_option status (get (updateTaskFromWebSocket
        (fetchTasks empty_store (Body [mk_task 1 PENDING])) (mk_task 1 DOWNLOADING)) 1) = Some DOWNLOADING
   \<and> length (tasks (updateTaskFromWebSocket
        (fetchTasks empty_store (Body [mk_task 1 PENDING])) (mk_task 1 DOWNLOADING))) = 1"
    by blast
  have h2': "list_all (\<lambda>x. task_id x \<noteq> task_id (mk_task 2 FAILED)) (tasks empty_store)"
    by (simp add: empty_store_def)
  from h1 c1 h2' c2 c3 show ?thesis by blast
qed

lemma fetch_body_tasks: "tasks (fetchTasks st (Body ts)) = ts"
  by (simp add: fetchTasks_def fetchTasks_resume_def action_begin_def)

lemma upsert_get:
  assumes "task_id t = Some i"
  shows "get (updateTaskFromWebSocket st t) i = Some t"
proof (cases "findIndex (\<lambda>x. task_id x = task_id t) (tasks st) = - 1")
  case True
  then have "\<forall>x \<in> set (tasks st). \<not> task_id x = Some i"
    using assms by (simp add: findIndex_none)
  then show ?thesis
    using True assms by (simp add: get_def upsert_cases find_append_new)
next
  case False
  from findIndex_found [OF False] assms
  have "nat (findIndex (\<lambda>x. task_id x = task_id t) (tasks st)) < length (tasks st)"
    "\<forall>j < nat (findIndex (\<lambda>x. task_id x = task_id t) (tasks st)). \<not> task_id (tasks st ! j) = Some i"
    by auto
  then show ?thesis
    using False assms by (simp add: get_def upsert_cases find_update_first)
qed

text \<open>
  C1 as stated fails: a push whose \<^verbatim>\<open>updated_at\<close> is older than the stored row's is
  applied, and the stored \<^verbatim>\<open>updated_at\<close> for id 1 goes back from 2 May to 1 May.
\<close>

theorem stale_push_overwrites_counterexample:
  "(''2024-05-01T10:00:00'' :: string) < ''2024-05-02T10:00:00''
   \<and> map_option updated_at (get (fetchTasks empty_store (Body [fresher_row])) 1)
        = Some (Some ''2024-05-02T10:00:00'')
   \<and> map_option updated_at
        (get (updateTaskFromWebSocket (fetchTasks empty_store (Body [fresher_row])) stale_push) 1)
        = Some (Some ''2024-05-01T10:00:00'')"
proof -
  have a: "(''2024-05-01T10:00:00'' :: string) < ''2024-05-02T10:00:00''"
    by (simp add: less_char_def)
  have b: "get (fetchTasks empty_store (Body [fresher_row])) 1 = Some fresher_row"
    by (simp add: get_def fetch_body_tasks fresher_row_def mk_task_def)
  have "task_id stale_push = Some 1" by (simp add: stale_push_def mk_task_def)
  then have c: "get (updateTaskFromWebSocket (fetchTasks empty_store (Body [fresher_row])) stale_push) 1
      = Some stale_push" by (rule upsert_get)
  show ?thesis
    unfolding b c using a by (simp add: fresher_row_def stale_push_def)
qed

text \<open>
  C1, amended. No update reads \<^verbatim>\<open>updated_at\<close>: a push is applied unconditionally, so
  after \<^verbatim>\<open>updateTaskFromWebSocket\<close> the record stored for the payload's id is the payload,
  and a successful snapshot fetch replaces the collection by the snapshot as it is.
\<close>

theorem last_write_wins:
  "(task_id t = Some i \<longrightarrow> get (updateTaskFromWebSocket st t) i = Some t)
   \<and> tasks (fetchTasks st (Body ts)) = ts"
  by (simp add: upsert_get fetch_body_tasks)

text \<open>The amended C1 at the stale push above.\<close>

theorem last_write_wins_witness:
  "task_id stale_push = Some 1
   \<and> get (updateTaskFromWebSocket (fetchTasks empty_store (Body [fresher_row])) stale_push) 1
       = Some stale_push
   \<and> tasks (fetchTasks (fetchTasks empty_store (Body [fresher_row])) (Body [stale_push]))
       = [stale_push]"
proof -
  have h: "task_id stale_push = Some 1" by (simp add: stale_push_def mk_task_def)
  from last_write_wins [of stale_push 1 "fetchTasks empty_store (Body [fresher_row])"
      "[stale_push]"] h
  show ?thesis by blast
qed

lemma upsert_distinct:
  assumes "distinct (map task_id (tasks st))"
  shows "distinct (map task_id (tasks (updateTaskFromWebSocket st t)))"
proof (cases "findIndex (\<lambda>x. task_id x = task_id t) (tasks st) = - 1")
  case True
  then have "task_id t \<notin> task_id ` set (tasks st)"
    by (auto simp: findIndex_none)
  with assms True show ?thesis by (simp add: upsert_cases)
next
  case False
  from findIndex_found [OF False]
  have "map task_id ((tasks st)[nat (findIndex (\<lambda>x. task_id x = task_id t) (tasks st)) := t])
      = map task_id (tasks st)"
    by (intro map_task_id_update) auto
  with assms False show ?thesis by (simp add: upsert_cases)
qed

lemma apply_op_distinct:
  "distinct (map task_id (tasks st)) \<Longrightarrow> snapshot_ids_distinct op \<Longrightarrow>
     distinct (map task_id (tasks (apply_op st op)))"
  by (cases op) (simp_all add: upsert_distinct fetch_body_tasks)

text \<open>
  C6 as stated fails for arbitrary inputs: a snapshot that lists id 1 twice is stored as
  it is.
\<close>

theorem duplicate_snapshot_counterexample:
  "\<not> distinct (map task_id (tasks (run_ops empty_store [ReplaceAll [mk_task 1 PENDING, mk_task 1 FAILED]])))"
  by (simp add: run_ops_def fetch_body_tasks mk_task_def)

text \<open>
  C6, amended. From a collection with pairwise distinct ids, every sequence of upserts
  and snapshot replacements whose snapshots each have pairwise distinct ids leaves a
  collection with pairwise distinct ids; upsert payloads are arbitrary.
\<close>

theorem ids_stay_distinct:
  "distinct (map task_id (tasks st)) \<Longrightarrow> \<forall>op \<in> set ops. snapshot_ids_distinct op \<Longrightarrow>
     distinct (map task_id (tasks (run_ops st ops)))"
  unfolding run_ops_def
proof (induction ops arbitrary: st)
  case Nil
  then show ?case by simp
next
  case (Cons op ops)
  from Cons.prems have "distinct (map task_id (tasks (apply_op st op)))"
    by (simp add: apply_op_distinct)
  with Cons show ?case by simp
qed

text \<open>The amended C6 on a snapshot followed by an overwriting and an appending upsert.\<close>

theorem ids_stay_distinct_witness:
  "distinct (map task_id (tasks empty_store))
   \<and> list_all snapshot_ids_distinct
        [ReplaceAll [mk_task 1 PENDING, mk_task 2 DOWNLOADING], Upsert (mk_task 1 DOWNLOADING), Upsert (mk_task 3 PENDING)]
   \<and> distinct (map task_id (tasks (run_ops empty_store
        [ReplaceAll [mk_task 1 PENDING, mk_task 2 DOWNLOADING], Upsert (mk_task 1 DOWNLOADING), Upsert (mk_task 3 PENDING)])))
   \<and> map task_id (tasks (run_ops empty_store
        [ReplaceAll [mk_task 1 PENDING, mk_task 2 DOWNLOADING], Upsert (mk_task 1 DOWNLOADING), Upsert (mk_task 3 PENDING)]))
       = [Some 1, Some 2, Some 3]"
proof -
  let ?ops = "[ReplaceAll [mk_task 1 PENDING, mk_task 2 DOWNLOADING], Upsert (mk_task 1 DOWNLOADING), Upsert (mk_task 3 PENDING)]"
  have h1: "distinct (map task_id (tasks empty_store))" by (simp add: empty_store_def)
  have h2: "\<forall>op \<in> set ?ops. snapshot_ids_distinct op" by (simp add: mk_task_def)
  have h2': "list_all snapshot_ids_distinct ?ops" by (simp add: mk_task_def)
  have c: "map task_id (tasks (run_ops empty_store ?ops)) = [Some 1, Some 2, Some 3]"
    by (simp add: run_ops_def fetch_body_tasks upsert_cases mk_task_def)
  from ids_stay_distinct [OF h1 h2] h1 h2' c show ?thesis by blast
qed


lemma terminate_body:
  "terminateTask st i (Body (m, t)) =
     ((if findIndex (\<lambda>x. task_id x = Some i) (tasks st) \<noteq> - 1
       then st\<lparr>tasks := (tasks st)[nat (findIndex (\<lambda>x. task_id x = Some i) (tasks st)) := t],
                isLoading := False, error := None\<rparr>
       else st\<lparr>isLoading := False, error := None\<rparr>), Some t)"
  by (simp add: terminateTask_def terminateTask_resume_def action_begin_def Let_def)

lemma redownload_body:
  "redownloadTask st i (Body (m, t)) =
     ((if findIndex (\<lambda>x. task_id x = Some i) (tasks st) \<noteq> - 1
       then st\<lparr>tasks := (tasks st)[nat (findIndex (\<lambda>x. task_id x = Some i) (tasks st)) := t],
                isLoading := False, error := None\<rparr>
       else st\<lparr>isLoading := False, error := None\<rparr>), Some t)"
  by (simp add: redownloadTask_def redownloadTask_resume_def action_begin_def Let_def)

lemma replace_known:
  assumes "\<exists>x \<in> set xs. task_id x = Some i"
  shows "\<exists>k < length xs. task_id (xs ! k) = Some i \<and> (\<forall>j < k. task_id (xs ! j) \<noteq> Some i)
     \<and> findIndex (\<lambda>x. task_id x = Some i) xs \<noteq> - 1
     \<and> nat (findIndex (\<lambda>x. task_id x = Some i) xs) = k"
proof -
  from assms have ne: "findIndex (\<lambda>x. task_id x = Some i) xs \<noteq> - 1"
    by (simp add: findIndex_none)
  from findIndex_found [OF ne] ne show ?thesis by blast
qed

text \<open>
  C7 as stated fails when the id is unknown: the terminate call succeeds and returns the
  record for id 5, the collection stays empty and \<^verbatim>\<open>get(5)\<close> finds nothing, where the
  upsert of the same record would have appended it.
\<close>

theorem terminate_unknown_id_counterexample:
  "snd (terminateTask empty_store 5 (Body (''ok'', mk_task 5 TERMINATED))) = Some (mk_task 5 TERMINATED)
   \<and> tasks (fst (terminateTask empty_store 5 (Body (''ok'', mk_task 5 TERMINATED)))) = []
   \<and> get (fst (terminateTask empty_store 5 (Body (''ok'', mk_task 5 TERMINATED)))) 5 = None
   \<and> tasks (updateTaskFromWebSocket empty_store (mk_task 5 TERMINATED)) = [mk_task 5 TERMINATED]"
  by (simp add: terminate_body upsert_cases get_def empty_store_def)

text \<open>
  C7, amended. On success \<^verbatim>\<open>terminateTask\<close> and \<^verbatim>\<open>redownloadTask\<close> write the returned
  record over the first stored entry whose id is the requested one, so that \<^verbatim>\<open>get(id)\<close>
  is that record when it carries the id; when no entry has the id the collection is left
  as it was; the record is returned in both cases. On an error body or a thrown call the
  collection is unchanged, the action returns \<^verbatim>\<open>null\<close> and \<^verbatim>\<open>error\<close> holds the server's
  or the local message.
\<close>

theorem action_result_replaces_known_row:
  "((\<exists>x \<in> set (tasks st). task_id x = Some i) \<longrightarrow>
      (\<exists>k < length (tasks st). task_id (tasks st ! k) = Some i
         \<and> (\<forall>j < k. task_id (tasks st ! j) \<noteq> Some i)
         \<and> tasks (fst (terminateTask st i (Body (m, t)))) = (tasks st)[k := t]
         \<and> tasks (fst (redownloadTask st i (Body (m, t)))) = (tasks st)[k := t]
         \<and> (task_id t = Some i \<longrightarrow> get (fst (terminateTask st i (Body (m, t)))) i = Some t
               \<and> get (fst (redownloadTask st i (Body (m, t)))) i = Some t)))
   \<and> ((\<forall>x \<in> set (tasks st). task_id x \<noteq> Some i) \<longrightarrow>
        tasks (fst (terminateTask st i (Body (m, t)))) = tasks st
        \<and> tasks (fst (redownloadTask st i (Body (m, t)))) = tasks st)
   \<and> snd (terminateTask st i (Body (m, t))) = Some t
   \<and> snd (redownloadTask st i (Body (m, t))) = Some t
   \<and> terminateTask st i (ErrorBody e) = (st\<lparr>isLoading := False, error := Some e\<rparr>, None)
   \<and> redownloadTask st i (ErrorBody e) = (st\<lparr>isLoading := False, error := Some e\<rparr>, None)
   \<and> terminateTask st i Thrown = (st\<lparr>isLoading := False, error := Some terminate_failed_msg\<rparr>, None)
   \<and> redownloadTask st i Thrown = (st\<lparr>isLoading := False, error := Some redownload_failed_msg\<rparr>, None)"
proof (intro conjI impI)
  assume "\<exists>x \<in> set (tasks st). task_id x = Some i"
  from replace_known [OF this] obtain k where k: "k < length (tasks st)"
    "task_id (tasks st ! k) = Some i" "\<forall>j < k. task_id (tasks st ! j) \<noteq> Some i"
    "findIndex (\<lambda>x. task_id x = Some i) (tasks st) \<noteq> - 1"
    "nat (findIndex (\<lambda>x. task_id x = Some i) (tasks st)) = k" by blast
  have a: "tasks (fst (terminateTask st i (Body (m, t)))) = (tasks st)[k := t]"
    using k(4,5) by (simp add: terminate_body)
  have b: "tasks (fst (redownloadTask st i (Body (m, t)))) = (tasks st)[k := t]"
    using k(4,5) by (simp add: redownload_body)
  have c: "task_id t = Some i \<longrightarrow> get (fst (terminateTask st i (Body (m, t)))) i = Some t
               \<and> get (fst (redownloadTask st i (Body (m, t)))) i = Some t"
    using k(1,3) by (simp add: get_def a b find_update_first)
  from k a b c show "\<exists>k < length (tasks st). task_id (tasks st ! k) = Some i
         \<and> (\<forall>j < k. task_id (tasks st ! j) \<noteq> Some i)
         \<and> tasks (fst (terminateTask st i (Body (m, t)))) = (tasks st)[k := t]
         \<and> tasks (fst (redownloadTask st i (Body (m, t)))) = (tasks st)[k := t]
         \<and> (task_id t = Some i \<longrightarrow> get (fst (terminateTask st i (Body (m, t)))) i = Some t
               \<and> get (fst (redownloadTask st i (Body (m, t)))) i = Some t)"
    by blast
next
  assume "\<forall>x \<in> set (tasks st). task_id x \<noteq> Some i"
  then have n: "findIndex (\<lambda>x. task_id x = Some i) (tasks st) = - 1"
    by (simp add: findIndex_none)
  show "tasks (fst (terminateTask st i (Body (m, t)))) = tasks st"
    using n by (simp add: terminate_body)
  show "tasks (fst (redownloadTask st i (Body (m, t)))) = tasks st"
    using n by (simp add: redownload_body)
next
  show "snd (terminateTask st i (Body (m, t))) = Some t" by (simp add: terminate_body)
  show "snd (redownloadTask st i (Body (m, t))) = Some t" by (simp add: redownload_body)
  show "terminateTask st i (ErrorBody e) = (st\<lparr>isLoading := False, error := Some e\<rparr>, None)"
    by (simp add: terminateTask_def terminateTask_resume_def action_begin_def)
  show "redownloadTask st i (ErrorBody e) = (st\<lparr>isLoading := False, error := Some e\<rparr>, None)"
    by (simp add: redownloadTask_def redownloadTask_resume_def action_begin_def)
  show "terminateTask st i Thrown = (st\<lparr>isLoading := False, error := Some terminate_failed_msg\<rparr>, None)"
    by (simp add: terminateTask_def terminateTask_resume_def action_begin_def)
  show "redownloadTask st i Thrown = (st\<lparr>isLoading := False, error := Some redownload_failed_msg\<rparr>, None)"
    by (simp add: redownloadTask_def redownloadTask_resume_def action_begin_def)
qed

text \<open>The amended C7 on a store of two rows: a known id, an unknown id and a thrown call.\<close>

theorem action_result_replaces_known_row_witness:
  "(\<exists>x \<in> set (tasks two_rows). task_id x = Some 5)
   \<and> tasks (fst (terminateTask two_rows 5 (Body (''ok'', mk_task 5 TERMINATED))))
       = [mk_task 4 COMPLETED, mk_task 5 TERMINATED]
   \<and> get (fst (terminateTask two_rows 5 (Body (''ok'', mk_task 5 TERMINATED)))) 5
       = Some (mk_task 5 TERMINATED)
   \<and> list_all (\<lambda>x. task_id x \<noteq> Some 9) (tasks two_rows)
   \<and> tasks (fst (redownloadTask two_rows 9 (Body (''ok'', mk_task 9 PENDING)))) = tasks two_rows
   \<and> tasks (fst (terminateTask two_rows 5 Thrown)) = tasks two_rows
   \<and> snd (terminateTask two_rows 5 Thrown) = None"
proof -
  have ts: "tasks two_rows = [mk_task 4 COMPLETED, mk_task 5 DOWNLOADING]"
    by (simp add: two_rows_def)
  have h1: "\<exists>x \<in> set (tasks two_rows). task_id x = Some 5"
    unfolding ts by (simp add: mk_task_def)
  have h2: "\<forall>x \<in> set (tasks two_rows). task_id x \<noteq> Some 9"
    unfolding ts by (simp add: mk_task_def)
  have h2': "list_all (\<lambda>x. task_id x \<noteq> Some 9) (tasks two_rows)"
    unfolding ts by (simp add: mk_task_def)
  have h3: "task_id (mk_task 5 TERMINATED) = Some 5" by (simp add: mk_task_def)
  note T = action_result_replaces_known_row [of two_rows 5 "''ok''" "mk_task 5 TERMINATED"]
  from T h1 h3 obtain k where k: "k < length (tasks two_rows)"
    "task_id (tasks two_rows ! k) = Some 5"
    "tasks (fst (terminateTask two_rows 5 (Body (''ok'', mk_task 5 TERMINATED))))
       = (tasks two_rows)[k := mk_task 5 TERMINATED]"
    "get (fst (terminateTask two_rows 5 (Body (''ok'', mk_task 5 TERMINATED)))) 5
       = Some (mk_task 5 TERMINATED)"
    by blast
  have "k = 1" using k(1,2) unfolding ts by (auto simp: mk_task_def less_Suc_eq)
  with k(3) have c1: "tasks (fst (terminateTask two_rows 5 (Body (''ok'', mk_task 5 TERMINATED))))
       = [mk_task 4 COMPLETED, mk_task 5 TERMINATED]" by (simp add: ts)
  from action_result_replaces_known_row [of two_rows 9 "''ok''" "mk_task 9 PENDING"] h2
  have c2: "tasks (fst (redownloadTask two_rows 9 (Body (''ok'', mk_task 9 PENDING)))) = tasks two_rows"
    by blast
  from T have c3: "terminateTask two_rows 5 Thrown
      = (two_rows\<lparr>isLoading := False, error := Some terminate_failed_msg\<rparr>, None)"
    by blast
  have c4: "tasks (fst (terminateTask two_rows 5 Thrown)) = tasks two_rows"
    "snd (terminateTask two_rows 5 Thrown) = None"
    unfolding c3 by simp_all
  from h1 c1 k(4) h2' c2 c4 show ?thesis by blast
qed

lemma delete_body:
  "deleteTask st i (Body m) =
     (st\<lparr>tasks := filter (\<lambda>t. task_id t \<noteq> Some i) (tasks st), isLoading := False, error := None\<rparr>, True)"
  by (simp add: deleteTask_def deleteTask_resume_def action_begin_def)

text \<open>
  C8. A successful \<^verbatim>\<open>deleteTask(id)\<close> returns true and leaves the collection filtered by
  id at once: no entry with the id remains, none is kept as a tombstone. A push for the
  same id that arrives afterwards is appended, so the id is stored again; the channel's
  \<^verbatim>\<open>task_update\<close> listener hands the push to the store's handler once it is registered.
\<close>

theorem delete_removes_then_push_reinserts:
  "snd (deleteTask st i (Body m)) = True
   \<and> tasks (fst (deleteTask st i (Body m))) = filter (\<lambda>x. task_id x \<noteq> Some i) (tasks st)
   \<and> (\<forall>x \<in> set (tasks (fst (deleteTask st i (Body m)))). task_id x \<noteq> Some i)
   \<and> get (fst (deleteTask st i (Body m))) i = None
   \<and> (task_id t = Some i \<longrightarrow>
        tasks (updateTaskFromWebSocket (fst (deleteTask st i (Body m))) t)
          = filter (\<lambda>x. task_id x \<noteq> Some i) (tasks st) @ [t]
        \<and> get (updateTaskFromWebSocket (fst (deleteTask st i (Body m))) t) i = Some t)
   \<and> on_task_update (onTaskUpdate (\<lambda>d s. updateTaskFromWebSocket s d) ws) t
        (fst (deleteTask st i (Body m)))
       = updateTaskFromWebSocket (fst (deleteTask st i (Body m))) t"
proof -
  let ?d = "fst (deleteTask st i (Body m))"
  have p: "on_task_update (onTaskUpdate (\<lambda>d s. updateTaskFromWebSocket s d) ws) t ?d
      = updateTaskFromWebSocket ?d t"
    by (simp add: on_task_update_def onTaskUpdate_def)
  have a: "tasks ?d = filter (\<lambda>x. task_id x \<noteq> Some i) (tasks st)"
    by (simp add: delete_body)
  have b: "\<forall>x \<in> set (tasks ?d). task_id x \<noteq> Some i"
    by (simp add: a)
  have c: "get ?d i = None"
    by (simp add: get_def a find_None_iff)
  have d: "task_id t = Some i \<longrightarrow> tasks (updateTaskFromWebSocket ?d t)
          = filter (\<lambda>x. task_id x \<noteq> Some i) (tasks st) @ [t]"
  proof
    assume t: "task_id t = Some i"
    with b have "findIndex (\<lambda>x. task_id x = task_id t) (tasks ?d) = - 1"
      by (simp add: findIndex_none)
    then show "tasks (updateTaskFromWebSocket ?d t) = filter (\<lambda>x. task_id x \<noteq> Some i) (tasks st) @ [t]"
      by (simp add: upsert_cases a)
  qed
  have e: "task_id t = Some i \<longrightarrow> get (updateTaskFromWebSocket ?d t) i = Some t"
    by (simp add: upsert_get)
  have s: "snd (deleteTask st i (Body m)) = True" by (simp add: delete_body)
  from s a b c d e p show ?thesis by blast
qed

text \<open>C8 on three rows: id 3 is deleted and then pushed again.\<close>

theorem delete_removes_then_push_reinserts_witness:
  "task_id (mk_task 3 DOWNLOADING) = Some 3
   \<and> tasks (fst (deleteTask three_rows 3 (Body ''deleted''))) = [mk_task 2 COMPLETED, mk_task 4 PENDING]
   \<and> get (fst (deleteTask three_rows 3 (Body ''deleted''))) 3 = None
   \<and> tasks (updateTaskFromWebSocket (fst (deleteTask three_rows 3 (Body ''deleted''))) (mk_task 3 DOWNLOADING))
       = [mk_task 2 COMPLETED, mk_task 4 PENDING, mk_task 3 DOWNLOADING]
   \<and> get (updateTaskFromWebSocket (fst (deleteTask three_rows 3 (Body ''deleted''))) (mk_task 3 DOWNLOADING)) 3
       = Some (mk_task 3 DOWNLOADING)"
proof -
  have h: "task_id (mk_task 3 DOWNLOADING) = Some 3" by (simp add: mk_task_def)
  have f: "filter (\<lambda>x. task_id x \<noteq> Some 3) (tasks three_rows) = [mk_task 2 COMPLETED, mk_task 4 PENDING]"
    by (simp add: three_rows_def mk_task_def)
  note T = delete_removes_then_push_reinserts [of three_rows 3 "''deleted''" "mk_task 3 DOWNLOADING"]
  from T h show ?thesis unfolding f by simp
qed

lemma filter_update_irrelevant:
  "i < length xs \<Longrightarrow> \<not> P (xs ! i) \<Longrightarrow> \<not> P y \<Longrightarrow> filter P (xs[i := y]) = filter P xs"
proof (induction xs arbitrary: i)
  case Nil
  then show ?case by simp
next
  case (Cons x xs)
  then show ?case by (cases i) auto
qed

text \<open>
  C9 as stated fails: the store does not check the id, and a payload without one is
  appended to a collection of two rows.
\<close>

theorem payload_without_id_counterexample:
  "task_id no_id_payload = None
   \<and> tasks (updateTaskFromWebSocket two_rows no_id_payload)
       = [mk_task 4 COMPLETED, mk_task 5 DOWNLOADING, no_id_payload]
   \<and> tasks (updateTaskFromWebSocket two_rows no_id_payload) \<noteq> tasks two_rows"
  by (simp add: upsert_cases two_rows_def no_id_payload_def mk_task_def)

text \<open>
  C9, amended. \<^verbatim>\<open>updateTaskFromWebSocket\<close> stores a payload that has no id like any
  other: it is appended at the tail when no stored entry lacks an id, and in every case
  it ends up in the collection while the entries that have an id stay as they were, in
  their order.
\<close>

theorem payload_without_id_is_stored:
  "task_id t = None \<longrightarrow>
     ((\<forall>x \<in> set (tasks st). task_id x \<noteq> None) \<longrightarrow>
         tasks (updateTaskFromWebSocket st t) = tasks st @ [t])
     \<and> t \<in> set (tasks (updateTaskFromWebSocket st t))
     \<and> filter (\<lambda>x. task_id x \<noteq> None) (tasks (updateTaskFromWebSocket st t))
         = filter (\<lambda>x. task_id x \<noteq> None) (tasks st)"
proof (intro impI conjI)
  assume t: "task_id t = None"
  { assume "\<forall>x \<in> set (tasks st). task_id x \<noteq> None"
    then have "findIndex (\<lambda>x. task_id x = task_id t) (tasks st) = - 1"
      using t by (simp add: findIndex_none)
    then show "tasks (updateTaskFromWebSocket st t) = tasks st @ [t]"
      by (simp add: upsert_cases) }
  show "t \<in> set (tasks (updateTaskFromWebSocket st t))"
  proof (cases "findIndex (\<lambda>x. task_id x = task_id t) (tasks st) = - 1")
    case True
    then show ?thesis by (simp add: upsert_cases)
  next
    case False
    from findIndex_found [OF False] False show ?thesis
      by (simp add: upsert_cases set_update_memI)
  qed
  show "filter (\<lambda>x. task_id x \<noteq> None) (tasks (updateTaskFromWebSocket st t))
         = filter (\<lambda>x. task_id x \<noteq> None) (tasks st)"
  proof (cases "findIndex (\<lambda>x. task_id x = task_id t) (tasks st) = - 1")
    case True
    then show ?thesis using t by (simp add: upsert_cases)
  next
    case False
    from findIndex_found [OF False] t
    have "nat (findIndex (\<lambda>x. task_id x = task_id t) (tasks st)) < length (tasks st)"
      "task_id (tasks st ! nat (findIndex (\<lambda>x. task_id x = task_id t) (tasks st))) = None"
      by auto
    then show ?thesis using False t
      by (simp add: upsert_cases filter_update_irrelevant)
  qed
qed

text \<open>The amended C9 on the two rows above.\<close>

theorem payload_without_id_is_stored_witness:
  "task_id no_id_payload = None
   \<and> list_all (\<lambda>x. task_id x \<noteq> None) (tasks two_rows)
   \<and> tasks (updateTaskFromWebSocket two_rows no_id_payload) = tasks two_rows @ [no_id_payload]
   \<and> no_id_payload \<in> set (tasks (updateTaskFromWebSocket two_rows no_id_payload))"
proof -
  have h1: "task_id no_id_payload = None" by (simp add: no_id_payload_def)
  have h2: "\<forall>x \<in> set (tasks two_rows). task_id x \<noteq> None"
    by (simp add: two_rows_def mk_task_def)
  have h2': "list_all (\<lambda>x. task_id x \<noteq> None) (tasks two_rows)"
    by (simp add: two_rows_def mk_task_def)
  from payload_without_id_is_stored [of no_id_payload two_rows] h1 h2 h2'
  show ?thesis by blast
qed

section \<open>Claims about the realtime channel and the session\<close>


lemma run_events_Nil: "run_events token ws [] = ws"
  by (simp add: run_events_def)

lemma run_events_Cons: "run_events token ws (e # es) = run_events token (listener token ws e) es"
  by (simp add: run_events_def)

lemma run_events_append:
  "run_events token ws (xs @ ys) = run_events token (run_events token ws xs) ys"
  by (simp add: run_events_def)

lemma socket_disconnect_fields:
  "emitted (socket_disconnect ws) = emitted ws"
  "promise (socket_disconnect ws) = promise ws"
  "taskUpdateCallback (socket_disconnect ws) = taskUpdateCallback ws"
  "socket (socket_disconnect ws) = (if socket ws = Some True then None else socket ws)"
  by (auto simp: socket_disconnect_def on_disconnect_def split: option.splits)

lemma listener_emitted:
  "emitted (listener token ws e) =
     (if e = request_auth \<and> truthy token \<and> socket ws \<noteq> None
      then emitted ws @ [the token] else emitted ws)"
  by (cases e) (auto simp: socket_disconnect_fields on_disconnect_def)

lemma listener_resolves:
  assumes "promise (listener token ws e) = Resolved True" "promise ws \<noteq> Resolved True"
  shows "\<exists>m. e = auth_response True m"
  using assms
  by (cases e) (auto simp: socket_disconnect_fields on_disconnect_def resolve_def reject_def
      split: if_splits)

lemma first_emission:
  assumes "emitted ws = []" "emitted (run_events token ws evs) \<noteq> []"
  shows "\<exists>pre post tok. evs = pre @ request_auth # post \<and> token = Some tok
     \<and> emitted (run_events token ws pre) = []
     \<and> emitted (run_events token ws (pre @ [request_auth])) = [tok]"
  using assms
proof (induction evs arbitrary: ws)
  case Nil
  then show ?case by (simp add: run_events_Nil)
next
  case (Cons e es)
  show ?case
  proof (cases "emitted (listener token ws e) = []")
    case True
    from Cons.IH [OF True] Cons.prems(2)
    obtain pre post tok where p: "es = pre @ request_auth # post" "token = Some tok"
      "emitted (run_events token (listener token ws e) pre) = []"
      "emitted (run_events token (listener token ws e) (pre @ [request_auth])) = [tok]"
      by (auto simp: run_events_Cons)
    have "e # es = (e # pre) @ request_auth # post" using p(1) by simp
    moreover have "emitted (run_events token ws (e # pre)) = []"
      using p(3) by (simp add: run_events_Cons)
    moreover have "emitted (run_events token ws ((e # pre) @ [request_auth])) = [tok]"
      using p(4) by (simp add: run_events_Cons)
    ultimately show ?thesis using p(2) by blast
  next
    case False
    with Cons.prems(1) have e: "e = request_auth" "truthy token"
      "emitted (listener token ws e) = [the token]"
      by (auto simp: listener_emitted split: if_splits)
    from e(2) obtain tok where tok: "token = Some tok"
      by (auto simp: truthy_def split: option.splits)
    have "e # es = [] @ request_auth # es" using e(1) by simp
    moreover have "emitted (run_events token ws []) = []"
      using Cons.prems(1) by (simp add: run_events_Nil)
    moreover have "emitted (run_events token ws ([] @ [request_auth])) = [tok]"
      using e tok by (simp add: run_events_Cons run_events_Nil)
    ultimately show ?thesis using tok by blast
  qed
qed

lemma first_resolution:
  assumes "promise ws \<noteq> Resolved True" "promise (run_events token ws evs) = Resolved True"
  shows "\<exists>pre m post. evs = pre @ auth_response True m # post"
  using assms
proof (induction evs arbitrary: ws)
  case Nil
  then show ?case by (simp add: run_events_Nil)
next
  case (Cons e es)
  show ?case
  proof (cases "promise (listener token ws e) = Resolved True")
    case True
    from listener_resolves [OF True Cons.prems(1)] obtain m where "e = auth_response True m" ..
    then have "e # es = [] @ auth_response True m # es" by simp
    then show ?thesis by blast
  next
    case False
    from Cons.IH [OF False] Cons.prems(2)
    obtain pre m post where "es = pre @ auth_response True m # post"
      by (auto simp: run_events_Cons)
    then have "e # es = (e # pre) @ auth_response True m # post" by simp
    then show ?thesis by blast
  qed
qed

lemma server_conforms_append:
  "server_conforms token ws (xs @ ys) \<longleftrightarrow>
     server_conforms token ws xs \<and> server_conforms token (run_events token ws xs) ys"
  by (induction xs arbitrary: ws) (auto simp: run_events_Nil run_events_Cons)

lemma connect_fresh:
  "socket ws \<noteq> Some True \<Longrightarrow>
     connect token ws = ws\<lparr>socket := Some False, promise := Pending, emitted := []\<rparr>"
  by (simp add: connect_def)

lemma handshake_in_trace:
  assumes fresh: "socket ws \<noteq> Some True"
    and conf: "server_conforms token (connect token ws) evs"
    and res: "promise (run_events token (connect token ws) evs) = Resolved True"
  shows "\<exists>pre mid post m tok. evs = pre @ request_auth # mid @ auth_response True m # post
     \<and> token = Some tok
     \<and> emitted (run_events token (connect token ws) (pre @ [request_auth])) = [tok]"
proof -
  let ?c = "connect token ws"
  have c0: "promise ?c \<noteq> Resolved True" "emitted ?c = []"
    using fresh by (simp_all add: connect_fresh)
  from first_resolution [OF c0(1) res]
  obtain p m post where ev: "evs = p @ auth_response True m # post" by blast
  from conf have "server_conforms token (run_events token ?c p) (auth_response True m # post)"
    unfolding ev by (simp add: server_conforms_append)
  then have "emitted (run_events token ?c p) \<noteq> []" by simp
  from first_emission [OF c0(2) this]
  obtain pre mid tok where p: "p = pre @ request_auth # mid" "token = Some tok"
    "emitted (run_events token ?c (pre @ [request_auth])) = [tok]" by blast
  have "evs = pre @ request_auth # mid @ auth_response True m # post"
    using ev p(1) by simp
  with p(2,3) show ?thesis by blast
qed

lemma auth_failure_rejects:
  assumes "promise c = Pending"
  shows "promise (listener token c (auth_response False m)) = Rejected (''Authentication failed: '' @ m)"
    and "\<not> isConnected (listener token c (auth_response False m))"
  using assms
  by (auto simp: reject_def isConnected_def socket_disconnect_fields split: option.splits)

text \<open>
  C2 as stated fails on two points. A server that sends \<^verbatim>\<open>auth_response{success:true}\<close>
  right after the transport opens makes \<^verbatim>\<open>connect\<close> resolve true although no
  \<^verbatim>\<open>request_auth\<close> was received and no \<^verbatim>\<open>authenticate\<close> was sent; and a refusal with
  the message \<^verbatim>\<open>bad token\<close> rejects with the text
  \<^verbatim>\<open>Authentication failed: bad token\<close>, not with the message alone.
\<close>

theorem handshake_skipped_counterexample:
  "socket idle_channel \<noteq> Some True
   \<and> promise (run_events (Some ''jwt'') (connect (Some ''jwt'') idle_channel)
        [connect_ev, auth_response True ''ok'']) = Resolved True
   \<and> emitted (run_events (Some ''jwt'') (connect (Some ''jwt'') idle_channel)
        [connect_ev, auth_response True ''ok'']) = []
   \<and> request_auth \<notin> set [connect_ev, auth_response True ''ok'']
   \<and> promise (run_events (Some ''jwt'') (connect (Some ''jwt'') idle_channel)
        [connect_ev, request_auth, auth_response False ''bad token''])
       = Rejected ''Authentication failed: bad token''
   \<and> Rejected ''Authentication failed: bad token'' \<noteq> Rejected ''bad token''"
  by (simp add: idle_channel_def connect_def run_events_def resolve_def reject_def truthy_def
      socket_disconnect_def on_disconnect_def)

text \<open>
  C2, amended. When the socket is already connected \<^verbatim>\<open>connect\<close> resolves true at once
  and opens no second connection. Otherwise, against a server that sends
  \<^verbatim>\<open>auth_response\<close> only after the client has sent \<^verbatim>\<open>authenticate\<close>, \<^verbatim>\<open>connect(token)\<close>
  resolves true only if the events received contain a \<^verbatim>\<open>request_auth\<close>, answered by the
  client with \<^verbatim>\<open>authenticate{token}\<close>, and later an \<^verbatim>\<open>auth_response{success:true}\<close>.
  An \<^verbatim>\<open>auth_response{success:false, message}\<close> that arrives while the call is pending
  rejects it with the text \<^verbatim>\<open>Authentication failed: \<close> followed by the message and
  leaves the channel not connected.
\<close>

theorem handshake_sequencing:
  "(socket ws = Some True \<longrightarrow>
      promise (connect token ws) = Resolved True \<and> socket (connect token ws) = Some True
      \<and> emitted (connect token ws) = emitted ws)
   \<and> (socket ws \<noteq> Some True \<and> server_conforms token (connect token ws) evs
        \<and> promise (run_events token (connect token ws) evs) = Resolved True \<longrightarrow>
        (\<exists>pre mid post m tok. evs = pre @ request_auth # mid @ auth_response True m # post
           \<and> token = Some tok
           \<and> emitted (run_events token (connect token ws) (pre @ [request_auth])) = [tok]))
   \<and> (promise c = Pending \<longrightarrow>
        promise (listener token c (auth_response False msg))
          = Rejected (''Authentication failed: '' @ msg)
        \<and> \<not> isConnected (listener token c (auth_response False msg)))"
proof (intro conjI impI)
  assume "socket ws = Some True"
  then show "promise (connect token ws) = Resolved True" "socket (connect token ws) = Some True"
    "emitted (connect token ws) = emitted ws"
    by (simp_all add: connect_def)
next
  assume "socket ws \<noteq> Some True \<and> server_conforms token (connect token ws) evs
        \<and> promise (run_events token (connect token ws) evs) = Resolved True"
  then show "\<exists>pre mid post m tok. evs = pre @ request_auth # mid @ auth_response True m # post
           \<and> token = Some tok
           \<and> emitted (run_events token (connect token ws) (pre @ [request_auth])) = [tok]"
    using handshake_in_trace by blast
next
  assume "promise c = Pending"
  then show "promise (listener token c (auth_response False msg))
          = Rejected (''Authentication failed: '' @ msg)"
    "\<not> isConnected (listener token c (auth_response False msg))"
    by (rule auth_failure_rejects)+
qed

text \<open>The amended C2 on an open channel, on a full handshake and on a refused one.\<close>

theorem handshake_sequencing_witness:
  "socket open_channel = Some True
   \<and> promise (connect (Some ''jwt'') open_channel) = Resolved True
   \<and> socket idle_channel \<noteq> Some True
   \<and> server_conforms (Some ''jwt'') (connect (Some ''jwt'') idle_channel)
        [connect_ev, request_auth, auth_response True ''ok'']
   \<and> promise (run_events (Some ''jwt'') (connect (Some ''jwt'') idle_channel)
        [connect_ev, request_auth, auth_response True ''ok'']) = Resolved True
   \<and> (\<exists>pre mid post m tok.
         [connect_ev, request_auth, auth_response True ''ok'']
           = pre @ request_auth # mid @ auth_response True m # post
         \<and> Some ''jwt'' = Some tok
         \<and> emitted (run_events (Some ''jwt'') (connect (Some ''jwt'') idle_channel)
              (pre @ [request_auth])) = [tok])
   \<and> promise awaiting_verdict = Pending
   \<and> isConnected awaiting_verdict
   \<and> promise (listener (Some ''jwt'') awaiting_verdict (auth_response False ''bad token''))
       = Rejected ''Authentication failed: bad token''
   \<and> \<not> isConnected (listener (Some ''jwt'') awaiting_verdict (auth_response False ''bad token''))"
proof -
  let ?evs = "[connect_ev, request_auth, auth_response True ''ok'']"
  have h1: "socket open_channel = Some True" by (simp add: open_channel_def)
  have h2: "socket idle_channel \<noteq> Some True" by (simp add: idle_channel_def)
  have h3: "server_conforms (Some ''jwt'') (connect (Some ''jwt'') idle_channel) ?evs"
    by (simp add: idle_channel_def connect_def truthy_def)
  have h4: "promise (run_events (Some ''jwt'') (connect (Some ''jwt'') idle_channel) ?evs) = Resolved True"
    by (simp add: idle_channel_def connect_def run_events_def truthy_def resolve_def)
  have h5: "promise awaiting_verdict = Pending" "isConnected awaiting_verdict"
    by (simp_all add: awaiting_verdict_def idle_channel_def connect_def run_events_def truthy_def
        isConnected_def)
  note T = handshake_sequencing [where ws = open_channel and token = "Some ''jwt''"
      and c = awaiting_verdict and msg = "''bad token''"]
  note U = handshake_sequencing [where ws = idle_channel and token = "Some ''jwt''" and evs = ?evs]
  from T h1 have c1: "promise (connect (Some ''jwt'') open_channel) = Resolved True" by blast
  from U h2 h3 h4 have c2: "\<exists>pre mid post m tok.
         ?evs = pre @ request_auth # mid @ auth_response True m # post
         \<and> Some ''jwt'' = Some tok
         \<and> emitted (run_events (Some ''jwt'') (connect (Some ''jwt'') idle_channel)
              (pre @ [request_auth])) = [tok]" by blast
  from T h5(1) have c3:
    "promise (listener (Some ''jwt'') awaiting_verdict (auth_response False ''bad token''))
       = Rejected (''Authentication failed: '' @ ''bad token'')"
    "\<not> isConnected (listener (Some ''jwt'') awaiting_verdict (auth_response False ''bad token''))"
    by blast+
  from c3(1) have c3': "promise (listener (Some ''jwt'') awaiting_verdict (auth_response False ''bad token''))
       = Rejected ''Authentication failed: bad token''" by simp
  from h1 c1 h2 h3 h4 c2 h5 c3' c3(2) show ?thesis by blast
qed






section \<open>Claims about the task page\<close>

lemma run_ui_Cons: "run_ui v (e # es) = run_ui (step v e) es"
  by (simp add: run_ui_def)

lemma step_requests: "requests (step v e) = requests v @ issued e"
  by (cases e) (simp_all add: store_call_def handler_enter_def handler_finally_def)

lemma run_ui_requests: "requests (run_ui v evs) = requests v @ concat (map issued evs)"
proof (induction evs arbitrary: v)
  case Nil
  show ?case by (simp add: run_ui_def)
next
  case (Cons e es)
  show ?case by (simp add: run_ui_Cons Cons.IH step_requests)
qed

text \<open>
  C3 as stated fails: after a first \<^verbatim>\<open>terminateTask(5)\<close> is confirmed its request is in
  flight and the refs hold id 5 and \<^verbatim>\<open>terminate\<close>; a second \<^verbatim>\<open>terminateTask(5)\<close>,
  confirmed before the first returns, issues a second request. So does a
  \<^verbatim>\<open>deleteTask(5)\<close>, whose button on that row is rendered and not shown loading
  meanwhile.
\<close>

theorem double_terminate_counterexample:
  "activeTaskId (run_ui (page_with [mk_task 5 DOWNLOADING])
       [Invoke Terminate 5, DialogOk Terminate 5]) = Some 5
   \<and> actionType (run_ui (page_with [mk_task 5 DOWNLOADING])
       [Invoke Terminate 5, DialogOk Terminate 5]) = Some Terminate
   \<and> requests (run_ui (page_with [mk_task 5 DOWNLOADING])
       [Invoke Terminate 5, DialogOk Terminate 5]) = [(Terminate, 5)]
   \<and> requests (run_ui (page_with [mk_task 5 DOWNLOADING])
       [Invoke Terminate 5, DialogOk Terminate 5, Invoke Terminate 5, DialogOk Terminate 5])
       = [(Terminate, 5), (Terminate, 5)]
   \<and> button_rendered Delete (mk_task 5 DOWNLOADING)
   \<and> \<not> button_loading (run_ui (page_with [mk_task 5 DOWNLOADING])
       [Invoke Terminate 5, DialogOk Terminate 5]) Delete (mk_task 5 DOWNLOADING)
   \<and> requests (run_ui (page_with [mk_task 5 DOWNLOADING])
       [Invoke Terminate 5, DialogOk Terminate 5, Invoke Delete 5, DialogOk Delete 5])
       = [(Terminate, 5), (Delete, 5)]"
  by (simp add: run_ui_def page_with_def store_call_def handler_enter_def button_loading_def
      button_rendered_def mk_task_def)

text \<open>
  C3, amended. The handlers write \<^verbatim>\<open>activeTaskId\<close> and \<^verbatim>\<open>actionType\<close> on entry and
  clear both on every exit, and never read them: the requests issued by any sequence of
  page events are exactly one per confirmed terminate or delete and one per redownload
  invocation, whatever the refs hold. The refs feed the loading indicators only: after
  an invocation, the one button shown loading is that action's on the rows with that id.
\<close>

theorem confirmed_invocations_all_issue:
  "requests (run_ui v evs) = requests v @ concat (map issued evs)
   \<and> activeTaskId (step v (Invoke a taskId)) = Some taskId
   \<and> actionType (step v (Invoke a taskId)) = Some a
   \<and> requests (step v (DialogOk Terminate taskId)) = requests v @ [(Terminate, taskId)]
   \<and> requests (step v (DialogOk Delete taskId)) = requests v @ [(Delete, taskId)]
   \<and> requests (step v (Invoke Redownload taskId)) = requests v @ [(Redownload, taskId)]
   \<and> activeTaskId (step v (TerminateDone taskId r)) = None
   \<and> actionType (step v (TerminateDone taskId r)) = None
   \<and> activeTaskId (step v (DeleteDone taskId d)) = None
   \<and> actionType (step v (DeleteDone taskId d)) = None
   \<and> activeTaskId (step v (RedownloadDone taskId r)) = None
   \<and> actionType (step v (RedownloadDone taskId r)) = None
   \<and> activeTaskId (step v (DialogCancel Terminate taskId)) = None
   \<and> actionType (step v (DialogCancel Terminate taskId)) = None
   \<and> activeTaskId (step v (DialogCancel Delete taskId)) = None
   \<and> actionType (step v (DialogCancel Delete taskId)) = None
   \<and> (button_loading (step v (Invoke a taskId)) b row \<longleftrightarrow> task_id row = Some taskId \<and> b = a)"
  by (auto simp: run_ui_requests store_call_def handler_enter_def handler_finally_def
      button_loading_def)

text \<open>
  C4 as stated fails: with id 1 stored as DOWNLOADING, \<^verbatim>\<open>redownloadTask(1)\<close> issues the
  request, and the store action applies the answer.
\<close>

theorem redownload_while_downloading_counterexample:
  "map_option status (get (taskStore (page_with [mk_task 1 DOWNLOADING])) 1) = Some DOWNLOADING
   \<and> requests (run_ui (page_with [mk_task 1 DOWNLOADING]) [Invoke Redownload 1])
       = [(Redownload, 1)]
   \<and> redownloadTask (taskStore (page_with [mk_task 1 DOWNLOADING])) 1 (Body (''ok'', mk_task 1 PENDING))
       = (taskStore (page_with [mk_task 1 PENDING]), Some (mk_task 1 PENDING))"
  by (simp add: run_ui_def page_with_def store_call_def handler_enter_def get_def mk_task_def
      redownloadTask_def redownloadTask_resume_def action_begin_def)

text \<open>
  C4, amended. The allowed statuses decide which buttons a row shows: terminate exactly
  for PENDING, DOWNLOADING and PROCESSING, redownload exactly for COMPLETED, FAILED and
  TERMINATED, delete for every status, all three only on a row not flagged deleted, so
  that a row never shows both terminate and redownload. The handlers and store actions
  check no status: an invocation issues its request whatever the stored status is.
\<close>

theorem status_gate_is_button_rendering:
  "(button_rendered Terminate row \<longleftrightarrow>
      deleted row \<noteq> Some True \<and> status row \<in> {PENDING, DOWNLOADING, PROCESSING})
   \<and> (button_rendered Redownload row \<longleftrightarrow>
      deleted row \<noteq> Some True \<and> status row \<in> {COMPLETED, FAILED, TERMINATED})
   \<and> (button_rendered Delete row \<longleftrightarrow> deleted row \<noteq> Some True)
   \<and> (deleted row \<noteq> Some True \<longrightarrow> button_rendered Terminate row \<noteq> button_rendered Redownload row)
   \<and> requests (step v (Invoke Redownload taskId)) = requests v @ [(Redownload, taskId)]
   \<and> requests (step v (DialogOk Terminate taskId)) = requests v @ [(Terminate, taskId)]
   \<and> requests (step v (DialogOk Delete taskId)) = requests v @ [(Delete, taskId)]"
  by (cases "status row")
    (simp_all add: button_rendered_def store_call_def handler_enter_def)

text \<open>The amended C4 on a DOWNLOADING row.\<close>

theorem status_gate_is_button_rendering_witness:
  "deleted (mk_task 1 DOWNLOADING) \<noteq> Some True
   \<and> button_rendered Terminate (mk_task 1 DOWNLOADING)
   \<and> \<not> button_rendered Redownload (mk_task 1 DOWNLOADING)
   \<and> button_rendered Delete (mk_task 1 DOWNLOADING)
   \<and> requests (step (page_with [mk_task 1 DOWNLOADING]) (Invoke Redownload 1)) = [(Redownload, 1)]"
proof -
  have h: "deleted (mk_task 1 DOWNLOADING) \<noteq> Some True" by (simp add: mk_task_def)
  have s: "status (mk_task 1 DOWNLOADING) = DOWNLOADING" by (simp add: mk_task_def)
  have r: "requests (page_with [mk_task 1 DOWNLOADING]) = []" by (simp add: page_with_def)
  note T = status_gate_is_button_rendering [of "mk_task 1 DOWNLOADING"
      "page_with [mk_task 1 DOWNLOADING]" 1]
  from T h s have a: "button_rendered Terminate (mk_task 1 DOWNLOADING)" by simp
  from T h a have b: "\<not> button_rendered Redownload (mk_task 1 DOWNLOADING)" by blast
  from T h have c: "button_rendered Delete (mk_task 1 DOWNLOADING)" by blast
  from T r have d: "requests (step (page_with [mk_task 1 DOWNLOADING]) (Invoke Redownload 1))
      = [(Redownload, 1)]" by simp
  from h a b c d show ?thesis by blast
qed

end
